theory Spec2Isabelle
  imports Complex_Main "HOL-Library.Word" "HOL-Library.Signed_Division"
begin

unbundle bit_operations_syntax

section \<open>The LIS2MDL magnetometer driver (lis2mdl.c)\<close>

subsection \<open>Machine integers\<close>

type_synonym u8 = "8 word"
type_synonym i16 = "16 word"
type_synonym i32 = "32 word"

text \<open>
  C division on \<^verbatim>\<open>int\<close> truncates toward zero; \<open>sdiv\<close> on \<^typ>\<open>int\<close> is that
  division. The result is stored back into a 32-bit integer.
\<close>

definition c_div :: "i32 \<Rightarrow> i32 \<Rightarrow> i32" where
  "c_div a b = word_of_int (sint a sdiv sint b)"

subsection \<open>What lis2mdl.h and the platform provide\<close>

text \<open>
  The register map of \<^verbatim>\<open>lis2mdl.h\<close> is not part of the source file. The driver
  is verified for every choice of these constants.
\<close>

record regmap =
  LIS2MDL_ADDRESS :: u8
  LIS2MDL_WHO_AM_I :: u8
  LIS2MDL_CFG_REG_A :: u8
  LIS2MDL_CFG_REG_B :: u8
  LIS2MDL_CFG_REG_C :: u8
  LIS2MDL_STATUS_REG :: u8
  LIS2MDL_OUTX_L_REG :: u8
  LIS2MDL_TEMP_OUT_L_REG :: u8

text \<open>
  Floating point. The driver computes in \<^verbatim>\<open>float\<close> and, for the printed
  self-test numbers, in \<^verbatim>\<open>double\<close> (the literal \<^verbatim>\<open>1000.0\<close>). The
  arithmetic is a parameter: \<open>'f\<close> is the type of \<^verbatim>\<open>float\<close> values, \<open>'d\<close> that
  of \<^verbatim>\<open>double\<close> values. A theorem that holds for every \<open>farith\<close> holds for
  IEEE 754 arithmetic with any rounding.
\<close>

record ('f, 'd) farith =
  f_of_int :: "int \<Rightarrow> 'f"
  f_lit :: "rat \<Rightarrow> 'f"
  f_sub :: "'f \<Rightarrow> 'f \<Rightarrow> 'f"
  f_mul :: "'f \<Rightarrow> 'f \<Rightarrow> 'f"
  f_div :: "'f \<Rightarrow> 'f \<Rightarrow> 'f"
  d_of_f :: "'f \<Rightarrow> 'd"
  d_lit :: "rat \<Rightarrow> 'd"
  d_mul :: "'d \<Rightarrow> 'd \<Rightarrow> 'd"

datatype pin_mode = INPUT

text \<open>
  Everything the driver does to the outside, in the order it does it: a bus
  transaction \<^verbatim>\<open>Wire.transfer(address, tx, txlen, rx, rxlen)\<close> is recorded
  with its address, the bytes sent and the number of bytes requested;
  \<^verbatim>\<open>delay(ms)\<close> with its duration; the \<^verbatim>\<open>Serial\<close> calls with what
  they print.
\<close>

datatype 'd event =
    Transfer u8 "u8 list" nat
  | Delay nat
  | Print string
  | PrintNum 'd
  | Println string
  | PrintlnNum 'd

text \<open>
  The state the driver runs in: its global \<^verbatim>\<open>_intPin\<close>, the pin
  configuration, the bytes the bus is going to deliver (\<open>rx s k\<close> is the
  \<open>k\<close>-th byte the bus ever returns, \<open>pos\<close> counts those already delivered),
  the trace of events, and the bytes that a bus read has stored beyond the
  end of the array it was given (\<open>spill\<close>). The global \<^verbatim>\<open>_mRes\<close> is never
  read or written: every function that mentions the name declares a local.
\<close>

record 'd machine =
  intPin :: u8
  gpio :: "(u8 \<times> pin_mode) list"
  rx :: "nat \<Rightarrow> u8"
  pos :: nat
  trace :: "'d event list"
  spill :: "u8 list"

definition emit :: "'d event \<Rightarrow> 'd machine \<Rightarrow> 'd machine" where
  "emit e s = s\<lparr>trace := trace s @ [e]\<rparr>"


definition delay :: "nat \<Rightarrow> 'd machine \<Rightarrow> 'd machine" where
  "delay ms s = emit (Delay ms) s"

text \<open>
  \<^verbatim>\<open>Wire.transfer\<close>: sends \<open>tx\<close>, then receives \<open>count\<close> bytes into an
  array of \<open>cap\<close> elements. The bytes that fit are returned as the array's
  contents; the others land behind the array and are recorded in \<open>spill\<close>.
\<close>

definition Wire_transfer ::
  "u8 \<Rightarrow> u8 list \<Rightarrow> nat \<Rightarrow> nat \<Rightarrow> 'd machine \<Rightarrow> u8 list \<times> 'd machine" where
  "Wire_transfer address tx count cap s =
     (let bytes = map (rx s) [pos s ..< pos s + count]
      in (take cap bytes,
          emit (Transfer address tx count)
            (s\<lparr>pos := pos s + count, spill := spill s @ drop cap bytes\<rparr>)))"

subsection \<open>Bus access\<close>

definition lis2mdl_write_byte :: "u8 \<Rightarrow> u8 \<Rightarrow> u8 \<Rightarrow> 'd machine \<Rightarrow> 'd machine" where
  "lis2mdl_write_byte address subAddress data s =
     snd (Wire_transfer address [subAddress, data] 0 0 s)"

definition lis2mdl_read_byte :: "u8 \<Rightarrow> u8 \<Rightarrow> 'd machine \<Rightarrow> u8 \<times> 'd machine" where
  "lis2mdl_read_byte address subAddress s =
     (let (temp, s') = Wire_transfer address [subAddress] 1 1 s
      in (temp ! 0, s'))"

text \<open>
  \<open>cap\<close> is the number of elements of the array \<^verbatim>\<open>dest\<close> points to; C does
  not pass it, the caller's declaration fixes it.
\<close>

definition lis2mdl_read :: "u8 \<Rightarrow> u8 \<Rightarrow> u8 \<Rightarrow> nat \<Rightarrow> 'd machine \<Rightarrow> u8 list \<times> 'd machine" where
  "lis2mdl_read address subAddress count cap s =
     Wire_transfer address [subAddress] (unat count) cap s"

text \<open>
  Modelled from the spec: \<^verbatim>\<open>lis2mdl_read_bytes\<close> is called by the two
  multi-byte reads but is not defined in the source file. It is the bus
  shim's \<^verbatim>\<open>readRegisters(addr, count)\<close>, one transaction that sends the
  subaddress and receives \<open>count\<close> bytes, which is what the file's own
  \<^verbatim>\<open>lis2mdl_read\<close> (same parameters) does.
\<close>

definition lis2mdl_read_bytes ::
  "u8 \<Rightarrow> u8 \<Rightarrow> u8 \<Rightarrow> nat \<Rightarrow> 'd machine \<Rightarrow> u8 list \<times> 'd machine" where
  "lis2mdl_read_bytes address subAddress count cap s =
     lis2mdl_read address subAddress count cap s"

subsection \<open>Device control\<close>






text \<open>
  \<^verbatim>\<open>((int16_t) rawData[1] << 8) | rawData[0]\<close>: the high byte is converted to
  \<^verbatim>\<open>int16_t\<close>, promoted to \<^verbatim>\<open>int\<close> and shifted; the low byte is promoted
  and or-ed in; the assignment keeps the low 16 bits.
\<close>

definition decode_axis :: "u8 \<Rightarrow> u8 \<Rightarrow> i16" where
  "decode_axis hi lo =
     ucast (push_bit 8 (scast (ucast hi :: i16) :: i32) OR (ucast lo :: i32))"

text \<open>
  \<^verbatim>\<open>uint8_t rawData[6]\<close> receives a read of 8 bytes. The result is the three
  elements written to \<^verbatim>\<open>destination\<close>.
\<close>

definition lis2mdl_data_get :: "regmap \<Rightarrow> 'd machine \<Rightarrow> i16 list \<times> 'd machine" where
  "lis2mdl_data_get R s =
     (let (rawData, s') =
            lis2mdl_read_bytes (LIS2MDL_ADDRESS R) (0x80 OR LIS2MDL_OUTX_L_REG R) 8 6 s
      in ([decode_axis (rawData ! 1) (rawData ! 0),
           decode_axis (rawData ! 3) (rawData ! 2),
           decode_axis (rawData ! 5) (rawData ! 4)], s'))"


subsection \<open>Calibration engine\<close>

text \<open>
  The body of the inner loop over \<^verbatim>\<open>jj\<close>, on the pair
  (\<^verbatim>\<open>mag_max\<close>, \<^verbatim>\<open>mag_min\<close>): signed comparisons of 16-bit values.
\<close>

definition update_axis :: "i16 list \<Rightarrow> nat \<Rightarrow> i16 list \<times> i16 list \<Rightarrow> i16 list \<times> i16 list" where
  "update_axis mag_temp jj e =
     (case e of (mag_max, mag_min) \<Rightarrow>
        (let mag_max' = (if sint (mag_temp ! jj) > sint (mag_max ! jj)
                         then mag_max[jj := mag_temp ! jj] else mag_max);
             mag_min' = (if sint (mag_temp ! jj) < sint (mag_min ! jj)
                         then mag_min[jj := mag_temp ! jj] else mag_min)
         in (mag_max', mag_min')))"

definition update_extrema :: "i16 list \<Rightarrow> i16 list \<times> i16 list \<Rightarrow> i16 list \<times> i16 list" where
  "update_extrema mag_temp e = fold (update_axis mag_temp) [0, 1, 2] e"

definition extrema_init :: "i16 list \<times> i16 list" where
  "extrema_init = ([- 32767, - 32767, - 32767], [32767, 32767, 32767])"

text \<open>The sampling loop, with the number of iterations still to run.\<close>

primrec sampling_loop ::
  "regmap \<Rightarrow> nat \<Rightarrow> (i16 list \<times> i16 list) \<times> 'd machine \<Rightarrow> (i16 list \<times> i16 list) \<times> 'd machine" where
  "sampling_loop R 0 st = st"
| "sampling_loop R (Suc n) st =
     (case st of (e, s) \<Rightarrow>
        (let (mag_temp, s1) = lis2mdl_data_get R s;
             e' = update_extrema mag_temp e;
             s2 = delay 12 s1
         in sampling_loop R n (e', s2)))"

text \<open>
  \<^verbatim>\<open>(mag_max[j] + mag_min[j]) / 2\<close> and \<^verbatim>\<open>(mag_max[j] - mag_min[j]) / 2\<close>: the
  16-bit operands are promoted to \<^verbatim>\<open>int\<close> before the arithmetic.
\<close>

definition mag_bias_counts :: "i16 list \<times> i16 list \<Rightarrow> i32 list" where
  "mag_bias_counts e =
     (case e of (mag_max, mag_min) \<Rightarrow>
        [c_div (scast (mag_max ! 0) + scast (mag_min ! 0)) 2,
         c_div (scast (mag_max ! 1) + scast (mag_min ! 1)) 2,
         c_div (scast (mag_max ! 2) + scast (mag_min ! 2)) 2])"

definition mag_scale_counts :: "i16 list \<times> i16 list \<Rightarrow> i32 list" where
  "mag_scale_counts e =
     (case e of (mag_max, mag_min) \<Rightarrow>
        [c_div (scast (mag_max ! 0) - scast (mag_min ! 0)) 2,
         c_div (scast (mag_max ! 1) - scast (mag_min ! 1)) 2,
         c_div (scast (mag_max ! 2) - scast (mag_min ! 2)) 2])"

text \<open>\<^verbatim>\<open>0.0015f\<close>, the local \<^verbatim>\<open>_mRes\<close> of both engines.\<close>

definition mRes :: "('f, 'd) farith \<Rightarrow> 'f" where
  "mRes F = f_lit F (15 / 10000)"

definition hard_iron :: "('f, 'd) farith \<Rightarrow> i32 list \<Rightarrow> 'f list" where
  "hard_iron F mag_bias =
     [f_mul F (f_of_int F (sint (mag_bias ! 0))) (mRes F),
      f_mul F (f_of_int F (sint (mag_bias ! 1))) (mRes F),
      f_mul F (f_of_int F (sint (mag_bias ! 2))) (mRes F)]"

text \<open>
  \<^verbatim>\<open>float avg_rad = mag_scale[0] + mag_scale[1] + mag_scale[2]; avg_rad /= 3.0f;\<close>
  The sum is an integer sum, converted once.
\<close>

definition avg_rad :: "('f, 'd) farith \<Rightarrow> i32 list \<Rightarrow> 'f" where
  "avg_rad F mag_scale =
     f_div F (f_of_int F (sint (mag_scale ! 0 + mag_scale ! 1 + mag_scale ! 2))) (f_lit F 3)"

definition soft_iron :: "('f, 'd) farith \<Rightarrow> i32 list \<Rightarrow> 'f list" where
  "soft_iron F mag_scale =
     [f_div F (avg_rad F mag_scale) (f_of_int F (sint (mag_scale ! 0))),
      f_div F (avg_rad F mag_scale) (f_of_int F (sint (mag_scale ! 1))),
      f_div F (avg_rad F mag_scale) (f_of_int F (sint (mag_scale ! 2)))]"

text \<open>
  The extrema the sampling loop of a calibration started in \<open>s\<close> ends with,
  and the machine it leaves.
\<close>

definition calibration_pass :: "regmap \<Rightarrow> 'd machine \<Rightarrow> (i16 list \<times> i16 list) \<times> 'd machine" where
  "calibration_pass R s =
     sampling_loop R 4000
       (extrema_init,
        delay 4000
          (emit (Println ''Calculate mag offset bias: move all around to sample the complete response surface!'') s))"

text \<open>The result is (\<^verbatim>\<open>dest1\<close>, \<^verbatim>\<open>dest2\<close>) and the machine.\<close>

definition lis2mdl_offset_bias ::
  "('f, 'd) farith \<Rightarrow> regmap \<Rightarrow> 'd machine \<Rightarrow> ('f list \<times> 'f list) \<times> 'd machine" where
  "lis2mdl_offset_bias F R s =
     (let (e, s') = calibration_pass R s;
          dest1 = hard_iron F (mag_bias_counts e);
          dest2 = soft_iron F (mag_scale_counts e)
      in ((dest1, dest2), emit (Println ''Mag Calibration done!'') s'))"

subsection \<open>Self-test engine\<close>

text \<open>
  The three additions \<^verbatim>\<open>sum[j] += temp[j]\<close> (\<open>sumv\<close> is the array
  \<^verbatim>\<open>sum\<close>): 32-bit additions of the promoted 16-bit sample.
\<close>

definition add_sample :: "i16 list \<Rightarrow> i32 list \<Rightarrow> i32 list" where
  "add_sample temp sumv =
     [sumv ! 0 + scast (temp ! 0),
      sumv ! 1 + scast (temp ! 1),
      sumv ! 2 + scast (temp ! 2)]"

primrec sum_loop :: "regmap \<Rightarrow> nat \<Rightarrow> i32 list \<times> 'd machine \<Rightarrow> i32 list \<times> 'd machine" where
  "sum_loop R 0 st = st"
| "sum_loop R (Suc n) st =
     (case st of (sumv, s) \<Rightarrow>
        (let (temp, s1) = lis2mdl_data_get R s;
             sumv' = add_sample temp sumv;
             s2 = delay 50 s1
         in sum_loop R n (sumv', s2)))"

text \<open>\<^verbatim>\<open>(float) sum[j] / 50.0f\<close> for the three axes.\<close>

definition means :: "('f, 'd) farith \<Rightarrow> i32 list \<Rightarrow> 'f list" where
  "means F sumv =
     [f_div F (f_of_int F (sint (sumv ! 0))) (f_lit F 50),
      f_div F (f_of_int F (sint (sumv ! 1))) (f_lit F 50),
      f_div F (f_of_int F (sint (sumv ! 2))) (f_lit F 50)]"

text \<open>
  \<^verbatim>\<open>(magTest[j] - magNom[j]) * _mRes * 1000.0\<close>: two \<^verbatim>\<open>float\<close> operations,
  then a \<^verbatim>\<open>double\<close> multiplication.
\<close>

definition delta :: "('f, 'd) farith \<Rightarrow> 'f list \<Rightarrow> 'f list \<Rightarrow> nat \<Rightarrow> 'd" where
  "delta F magTest magNom j =
     d_mul F (d_of_f F (f_mul F (f_sub F (magTest ! j) (magNom ! j)) (mRes F))) (d_lit F 1000)"

definition lis2mdl_self_test :: "('f, 'd) farith \<Rightarrow> regmap \<Rightarrow> 'd machine \<Rightarrow> 'd machine" where
  "lis2mdl_self_test F R s =
     (let (sumv, s1) = sum_loop R 50 ([0, 0, 0], s);
          magNom = means F sumv;
          (c, s2) = lis2mdl_read_byte (LIS2MDL_ADDRESS R) (LIS2MDL_CFG_REG_C R) s1;
          s3 = lis2mdl_write_byte (LIS2MDL_ADDRESS R) (LIS2MDL_CFG_REG_C R) (c OR 0x02) s2;
          s4 = delay 100 s3;
          (sumv', s5) = sum_loop R 50 ([0, 0, 0], s4);
          magTest = means F sumv';
          s6 = lis2mdl_write_byte (LIS2MDL_ADDRESS R) (LIS2MDL_CFG_REG_C R) c s5;
          s7 = delay 100 s6;
          s8 = emit (Println ''Mag Self Test:'') s7;
          s9 = emit (Print ''Mx results:'') s8;
          s10 = emit (PrintNum (delta F magTest magNom 0)) s9;
          s11 = emit (Println '' mG'') s10;
          s12 = emit (Print ''My results:'') s11;
          s13 = emit (PrintlnNum (delta F magTest magNom 0)) s12;
          s14 = emit (Print ''Mz results:'') s13;
          s15 = emit (PrintlnNum (delta F magTest magNom 1)) s14;
          s16 = emit (Println ''Should be between 15 and 500 mG'') s15
      in delay 2000 s16)"

subsection \<open>Reading the trace\<close>

text \<open>
  Modelled from the spec: the device behind the bus is external. Its
  register file is what \<^verbatim>\<open>writeRegister(addr, value)\<close> changes: a
  transaction to the device that sends a subaddress and one data byte and
  requests nothing. \<open>device_regs dev evs regs\<close> is the register file after
  the events \<open>evs\<close>, starting from \<open>regs\<close>.
\<close>

fun apply_event :: "u8 \<Rightarrow> 'd event \<Rightarrow> (u8 \<Rightarrow> u8) \<Rightarrow> (u8 \<Rightarrow> u8)" where
  "apply_event dev (Transfer a [subAddress, data] 0) regs =
     (if a = dev then regs(subAddress := data) else regs)"
| "apply_event dev e regs = regs"

definition device_regs :: "u8 \<Rightarrow> 'd event list \<Rightarrow> (u8 \<Rightarrow> u8) \<Rightarrow> (u8 \<Rightarrow> u8)" where
  "device_regs dev evs regs = fold (apply_event dev) evs regs"

text \<open>A register file of zeros.\<close>

definition blank_regs :: "u8 \<Rightarrow> u8" where
  "blank_regs r = 0"

text \<open>The numbers printed, in order.\<close>

fun printed :: "'d event list \<Rightarrow> 'd list" where
  "printed [] = []"
| "printed (PrintNum x # evs) = x # printed evs"
| "printed (PrintlnNum x # evs) = x # printed evs"
| "printed (e # evs) = printed evs"

text \<open>The multi-byte read of the output registers, as it appears in the trace.\<close>

definition read_vector_event :: "regmap \<Rightarrow> 'd event" where
  "read_vector_event R = Transfer (LIS2MDL_ADDRESS R) [0x80 OR LIS2MDL_OUTX_L_REG R] 8"

text \<open>
  The sample \<^verbatim>\<open>lis2mdl_data_get\<close> decodes from the 8 bytes that the bus
  delivers from position \<open>p\<close> on.
\<close>

definition sample_at :: "(nat \<Rightarrow> u8) \<Rightarrow> nat \<Rightarrow> i16 list" where
  "sample_at f p =
     [decode_axis (f (p + 1)) (f p),
      decode_axis (f (p + 3)) (f (p + 2)),
      decode_axis (f (p + 5)) (f (p + 4))]"

subsection \<open>Arithmetic without rounding\<close>

text \<open>
  One arithmetic to evaluate the driver on concrete inputs: every finite
  result is the exact rational number, and the special values behave as in
  IEEE 754 (a nonzero finite number divided by zero is an infinity, zero
  divided by zero is not a number). Zero has no sign here; every zero this
  driver divides by is the conversion of the integer 0, which is the positive zero.
\<close>

datatype xnum = Fin rat | PInf | NInf | NaN

fun x_neg :: "xnum \<Rightarrow> xnum" where
  "x_neg (Fin a) = Fin (- a)"
| "x_neg PInf = NInf"
| "x_neg NInf = PInf"
| "x_neg NaN = NaN"

fun x_add :: "xnum \<Rightarrow> xnum \<Rightarrow> xnum" where
  "x_add (Fin a) (Fin b) = Fin (a + b)"
| "x_add NaN y = NaN"
| "x_add x NaN = NaN"
| "x_add PInf NInf = NaN"
| "x_add NInf PInf = NaN"
| "x_add PInf y = PInf"
| "x_add NInf y = NInf"
| "x_add x PInf = PInf"
| "x_add x NInf = NInf"

definition x_sub :: "xnum \<Rightarrow> xnum \<Rightarrow> xnum" where
  "x_sub x y = x_add x (x_neg y)"

text \<open>The sign of a value that is not NaN: \<open>1\<close>, \<open>0\<close> or \<open>- 1\<close>.\<close>

fun x_sgn :: "xnum \<Rightarrow> rat" where
  "x_sgn (Fin a) = sgn a"
| "x_sgn PInf = 1"
| "x_sgn NInf = - 1"
| "x_sgn NaN = 0"

definition x_inf :: "rat \<Rightarrow> xnum" where
  "x_inf sg = (if sg = 0 then NaN else if sg > 0 then PInf else NInf)"

fun x_mul :: "xnum \<Rightarrow> xnum \<Rightarrow> xnum" where
  "x_mul (Fin a) (Fin b) = Fin (a * b)"
| "x_mul NaN y = NaN"
| "x_mul x NaN = NaN"
| "x_mul x y = x_inf (x_sgn x * x_sgn y)"

fun x_div :: "xnum \<Rightarrow> xnum \<Rightarrow> xnum" where
  "x_div (Fin a) (Fin b) = (if b = 0 then x_inf (sgn a) else Fin (a / b))"
| "x_div NaN y = NaN"
| "x_div x NaN = NaN"
| "x_div (Fin a) y = Fin 0"
| "x_div x (Fin b) = x_inf (x_sgn x * (if b < 0 then - 1 else 1))"
| "x_div x y = NaN"

definition exact_arith :: "(xnum, xnum) farith" where
  "exact_arith =
     \<lparr>f_of_int = (\<lambda>n. Fin (of_int n)), f_lit = Fin, f_sub = x_sub, f_mul = x_mul,
      f_div = x_div, d_of_f = (\<lambda>x. x), d_lit = Fin, d_mul = x_mul\<rparr>"

subsection \<open>A concrete platform for examples\<close>

text \<open>The register addresses of the LIS2MDL data sheet.\<close>

definition lis2mdl_regs :: regmap where
  "lis2mdl_regs =
     \<lparr>LIS2MDL_ADDRESS = 0x1E, LIS2MDL_WHO_AM_I = 0x4F, LIS2MDL_CFG_REG_A = 0x60,
      LIS2MDL_CFG_REG_B = 0x61, LIS2MDL_CFG_REG_C = 0x62, LIS2MDL_STATUS_REG = 0x67,
      LIS2MDL_OUTX_L_REG = 0x68, LIS2MDL_TEMP_OUT_L_REG = 0x6E\<rparr>"

text \<open>A machine that has done nothing yet, on a bus that will deliver \<open>f\<close>.\<close>

definition boot :: "(nat \<Rightarrow> u8) \<Rightarrow> 'd machine" where
  "boot f = \<lparr>intPin = 0, gpio = [], rx = f, pos = 0, trace = [], spill = []\<rparr>"

text \<open>A bus that repeats the same 8 bytes forever.\<close>

definition repeating :: "u8 list \<Rightarrow> nat \<Rightarrow> u8" where
  "repeating bs k = bs ! (k mod 8)"

text \<open>
  A bus for one self-test: 50 times the 8 bytes \<open>base\<close>, then the byte \<open>c\<close>
  (the answer to the read of the control register), then the 8 bytes \<open>exc\<close>
  again and again.
\<close>

definition selftest_bus :: "u8 list \<Rightarrow> u8 \<Rightarrow> u8 list \<Rightarrow> nat \<Rightarrow> u8" where
  "selftest_bus base c exc k =
     (if k < 400 then base ! (k mod 8)
      else if k = 400 then c
      else exc ! ((k - 401) mod 8))"

subsection \<open>The specification's vocabulary\<close>

text \<open>
  The little-endian signed 16-bit value of two bytes, low byte first: the
  two's complement reading of \<open>lo + 256 * hi\<close>.
\<close>

definition le16 :: "u8 \<Rightarrow> u8 \<Rightarrow> int" where
  "le16 lo hi = (let u = uint lo + 256 * uint hi in if u < 32768 then u else u - 65536)"

text \<open>The running extrema after a sequence of samples.\<close>

definition feed :: "i16 list list \<Rightarrow> i16 list \<times> i16 list" where
  "feed samples = fold update_extrema samples extrema_init"

text \<open>The samples that \<open>n\<close> successive vector reads decode, starting at bus position \<open>p\<close>.\<close>

definition samples_from :: "(nat \<Rightarrow> u8) \<Rightarrow> nat \<Rightarrow> nat \<Rightarrow> i16 list list" where
  "samples_from f p n = map (\<lambda>i. sample_at f (p + 8 * i)) [0 ..< n]"

text \<open>
  What \<open>n\<close> iterations of a sampling loop with inter-sample delay \<open>d\<close> add to
  the trace, what they spill, and the machine they leave.
\<close>

definition reads :: "regmap \<Rightarrow> nat \<Rightarrow> nat \<Rightarrow> 'd event list" where
  "reads R n d = concat (replicate n [read_vector_event R, Delay d])"

definition spilled :: "(nat \<Rightarrow> u8) \<Rightarrow> nat \<Rightarrow> nat \<Rightarrow> u8 list" where
  "spilled f p n = concat (map (\<lambda>i. [f (p + 8 * i + 6), f (p + 8 * i + 7)]) [0 ..< n])"

definition after_reads :: "regmap \<Rightarrow> nat \<Rightarrow> nat \<Rightarrow> 'd machine \<Rightarrow> 'd machine" where
  "after_reads R n d s =
     s\<lparr>pos := pos s + 8 * n, trace := trace s @ reads R n d,
       spill := spill s @ spilled (rx s) (pos s) n\<rparr>"

text \<open>The events a run has added to the trace of the machine \<open>s\<close> it started in.\<close>

definition added :: "'d machine \<Rightarrow> 'd machine \<Rightarrow> 'd event list" where
  "added s s' = drop (length (trace s)) (trace s')"

text \<open>The bus transactions among some events.\<close>

fun is_transfer :: "'d event \<Rightarrow> bool" where
  "is_transfer (Transfer a tx n) = True"
| "is_transfer e = False"

definition bus_traffic :: "'d event list \<Rightarrow> 'd event list" where
  "bus_traffic evs = filter is_transfer evs"

text \<open>
  What a machine shows to the outside: the number of bytes taken from the
  bus, the trace, and the bytes stored out of bounds.
\<close>

definition observable :: "'d machine \<Rightarrow> nat \<times> 'd event list \<times> u8 list" where
  "observable s = (pos s, trace s, spill s)"

text \<open>
  The calibration contract in the specification's words. \<open>axis_values s j\<close>
  are the raw values of axis \<open>j\<close> in the 4000 samples of a pass started in
  \<open>s\<close>; the axis has zero range when their maximum minus their minimum is
  0. A pass in which some axis has zero range fails with
  \<open>DegenerateCalibration\<close>; any other pass returns the two vectors.
\<close>

datatype calibration_error = DegenerateCalibration

definition axis_values :: "'d machine \<Rightarrow> nat \<Rightarrow> int list" where
  "axis_values s j = map (\<lambda>v. sint (v ! j)) (samples_from (rx s) (pos s) 4000)"

definition zero_range :: "'d machine \<Rightarrow> nat \<Rightarrow> bool" where
  "zero_range s j = (Max (set (axis_values s j)) - Min (set (axis_values s j)) = 0)"

definition calibrate_spec ::
  "('f, 'd) farith \<Rightarrow> regmap \<Rightarrow> 'd machine \<Rightarrow> calibration_error + ('f list \<times> 'f list)" where
  "calibrate_spec F R s =
     (if zero_range s 0 \<or> zero_range s 1 \<or> zero_range s 2
      then Inl DegenerateCalibration
      else Inr (hard_iron F (mag_bias_counts (fst (calibration_pass R s))),
                soft_iron F (mag_scale_counts (fst (calibration_pass R s)))))"

text \<open>
  The extrema a calibration pass started in \<open>s\<close> ends with, and the integer
  bias and scale basis of each axis computed from them.
\<close>

definition pass_extrema :: "regmap \<Rightarrow> 'd machine \<Rightarrow> i16 list \<times> i16 list" where
  "pass_extrema R s = fst (calibration_pass R s)"

definition bias_counts :: "regmap \<Rightarrow> 'd machine \<Rightarrow> i32 list" where
  "bias_counts R s = mag_bias_counts (pass_extrema R s)"

definition scale_bases :: "regmap \<Rightarrow> 'd machine \<Rightarrow> i32 list" where
  "scale_bases R s = mag_scale_counts (pass_extrema R s)"

text \<open>A bus on which every axis reads 42, forever.\<close>

definition c42 :: "nat \<Rightarrow> u8" where
  "c42 = repeating [42, 0, 42, 0, 42, 0, 0, 0]"

text \<open>A bus on which the x axis reads \<open>- 32768\<close> and the others 42, forever.\<close>

definition cmin :: "nat \<Rightarrow> u8" where
  "cmin = repeating [0x00, 0x80, 42, 0, 42, 0, 0, 0]"

text \<open>
  A bus for a self-test on which every sample is (0, 0, 0) and the control
  register reads \<open>0x02\<close>: the self-test bit is already set.
\<close>

definition st_set_bus :: "nat \<Rightarrow> u8" where
  "st_set_bus = selftest_bus [0, 0, 0, 0, 0, 0, 0, 0] 0x02 [0, 0, 0, 0, 0, 0, 0, 0]"

text \<open>
  A bus for a self-test whose baseline samples are (10, 20, 30) and whose
  excited samples are (40, 60, 80); the control register reads 0.
\<close>

definition axes_bus :: "nat \<Rightarrow> u8" where
  "axes_bus = selftest_bus [10, 0, 20, 0, 30, 0, 0, 0] 0 [40, 0, 60, 0, 80, 0, 0, 0]"

subsection \<open>Auxiliary notions for the proofs\<close>

definition upd_max :: "i16 \<Rightarrow> i16 \<Rightarrow> i16" where
  "upd_max t m = (if sint t > sint m then t else m)"

definition upd_min :: "i16 \<Rightarrow> i16 \<Rightarrow> i16" where
  "upd_min t m = (if sint t < sint m then t else m)"

definition wf_extrema :: "i16 list \<times> i16 list \<Rightarrow> bool" where
  "wf_extrema e = (length (fst e) = 3 \<and> length (snd e) = 3)"

definition ordered :: "i16 list \<times> i16 list \<Rightarrow> bool" where
  "ordered e =
     (wf_extrema e \<and> sint (snd e ! 0) \<le> sint (fst e ! 0) \<and>
      sint (snd e ! 1) \<le> sint (fst e ! 1) \<and> sint (snd e ! 2) \<le> sint (fst e ! 2))"

definition set_pin :: "u8 \<Rightarrow> (u8 \<times> pin_mode) list \<Rightarrow> 'd machine \<Rightarrow> 'd machine" where
  "set_pin p g s = s\<lparr>intPin := p, gpio := g\<rparr>"

section \<open>Bus access and decoding\<close>

lemma upt_8: "[p ..< p + 8] = [p, p + 1, p + 2, p + 3, p + 4, p + 5, p + 6, p + 7 :: nat]"
proof -
  have "[p ..< p + 8] = map (\<lambda>i. i + p) [0 ..< 8]"
    by (simp only: map_add_upt add.commute)
  also have "[0 ..< 8] = [0, 1, 2, 3, 4, 5, 6, 7 :: nat]"
    by (simp add: upt_rec)
  finally show ?thesis by (simp add: add.commute)
qed

lemma Wire_transfer_8_6:
  "Wire_transfer a tx 8 6 s =
     ([rx s (pos s), rx s (pos s + 1), rx s (pos s + 2), rx s (pos s + 3),
       rx s (pos s + 4), rx s (pos s + 5)],
      s\<lparr>pos := pos s + 8, trace := trace s @ [Transfer a tx 8],
        spill := spill s @ [rx s (pos s + 6), rx s (pos s + 7)]\<rparr>)"
  by (simp add: Wire_transfer_def emit_def upt_8 Let_def)

lemma data_get_eq:
  "lis2mdl_data_get R s =
     (sample_at (rx s) (pos s),
      s\<lparr>pos := pos s + 8, trace := trace s @ [read_vector_event R],
        spill := spill s @ [rx s (pos s + 6), rx s (pos s + 7)]\<rparr>)"
  by (simp add: lis2mdl_data_get_def lis2mdl_read_bytes_def lis2mdl_read_def
      Wire_transfer_8_6 sample_at_def read_vector_event_def)

lemma read_byte_eq:
  "lis2mdl_read_byte a sub s =
     (rx s (pos s), s\<lparr>pos := pos s + 1, trace := trace s @ [Transfer a [sub] 1]\<rparr>)"
  by (simp add: lis2mdl_read_byte_def Wire_transfer_def emit_def Let_def)

lemma write_byte_eq:
  "lis2mdl_write_byte a sub v s = s\<lparr>trace := trace s @ [Transfer a [sub, v] 0]\<rparr>"
  by (simp add: lis2mdl_write_byte_def Wire_transfer_def emit_def Let_def)


lemma added_append: "trace s' = trace s @ evs \<Longrightarrow> added s s' = evs"
  by (simp add: added_def)

lemma decode_axis_cat: "decode_axis hi lo = word_cat hi lo"
  unfolding decode_axis_def word_cat_eq_push_bit_or
  by (rule bit_word_eqI) (auto simp add: bit_simps)

lemma uint_decode: "uint (decode_axis hi lo) = uint lo + 256 * uint hi"
proof -
  have hi: "0 \<le> uint hi" "uint hi < 256" using uint_lt2p[of hi] by simp_all
  have lo: "0 \<le> uint lo" "uint lo < 256" using uint_lt2p[of lo] by simp_all
  have "uint (decode_axis hi lo) = uint (word_of_int (concat_bit 8 (uint lo) (uint hi)) :: i16)"
    by (simp only: decode_axis_cat word_cat_eq') simp
  also have "\<dots> = take_bit 16 (concat_bit 8 (uint lo) (uint hi))"
    by (simp only: uint_word_of_int_eq) simp
  also have "concat_bit 8 (uint lo) (uint hi) = uint lo + 256 * uint hi"
    using lo by (simp add: concat_bit_eq take_bit_int_eq_self push_bit_eq_mult)
  also have "take_bit 16 (uint lo + 256 * uint hi) = uint lo + 256 * uint hi"
    by (rule take_bit_int_eq_self) (use hi lo in simp_all)
  finally show ?thesis .
qed

lemma signed_take_bit_15:
  assumes "0 \<le> u" "u < 65536"
  shows "signed_take_bit 15 (u :: int) = (if u < 32768 then u else u - 65536)"
proof (cases "u < 32768")
  case True
  then show ?thesis using assms by (simp add: signed_take_bit_int_eq_self)
next
  case False
  have e: "u + 32768 = (u - 32768) + 65536" by arith
  have "(u + 32768) mod 65536 = ((u - 32768) + 65536) mod 65536"
    by (subst e) (rule refl)
  also have "\<dots> = (u - 32768) mod 65536" by (simp only: mod_add_self2)
  also have "\<dots> = u - 32768" using False assms by simp
  finally show ?thesis using False
    by (simp add: signed_take_bit_eq_take_bit_shift take_bit_eq_mod)
qed

lemma sint_decode: "sint (decode_axis hi lo) = le16 lo hi"
proof -
  have hi: "0 \<le> uint hi" "uint hi < 256" using uint_lt2p[of hi] by simp_all
  have lo: "0 \<le> uint lo" "uint lo < 256" using uint_lt2p[of lo] by simp_all
  have "sint (decode_axis hi lo) = signed_take_bit 15 (uint lo + 256 * uint hi)"
    by (simp add: sint_uint uint_decode)
  also have "\<dots> = le16 lo hi"
    unfolding le16_def Let_def by (rule signed_take_bit_15) (use hi lo in simp_all)
  finally show ?thesis .
qed

text \<open>
  C4. Every call of \<^verbatim>\<open>lis2mdl_data_get\<close> adds exactly one event to the
  trace, a read of 8 bytes from the output registers with the
  auto-increment bit set, and takes 8 bytes from the bus. Each axis is the
  little-endian signed 16-bit value of its byte pair among the first 6
  bytes; the last two bytes do not enter the result. The bytes
  \<^verbatim>\<open>10 00 20 00 30 00 FF FF\<close> decode to 16, 32, 48.
\<close>

theorem data_get_decodes:
  "added s (snd (lis2mdl_data_get R s)) =
     [Transfer (LIS2MDL_ADDRESS R) [0x80 OR LIS2MDL_OUTX_L_REG R] 8]
   \<and> pos (snd (lis2mdl_data_get R s)) = pos s + 8
   \<and> map sint (fst (lis2mdl_data_get R s)) =
       [le16 (rx s (pos s)) (rx s (pos s + 1)),
        le16 (rx s (pos s + 2)) (rx s (pos s + 3)),
        le16 (rx s (pos s + 4)) (rx s (pos s + 5))]
   \<and> map sint (fst (lis2mdl_data_get lis2mdl_regs
         (boot (repeating [0x10, 0x00, 0x20, 0x00, 0x30, 0x00, 0xFF, 0xFF])))) = [16, 32, 48]"
proof -
  have "added s (snd (lis2mdl_data_get R s)) =
          [Transfer (LIS2MDL_ADDRESS R) [0x80 OR LIS2MDL_OUTX_L_REG R] 8]"
    by (rule added_append) (simp add: data_get_eq read_vector_event_def)
  moreover have "pos (snd (lis2mdl_data_get R s)) = pos s + 8"
    by (simp add: data_get_eq)
  moreover have "map sint (fst (lis2mdl_data_get R s)) =
       [le16 (rx s (pos s)) (rx s (pos s + 1)),
        le16 (rx s (pos s + 2)) (rx s (pos s + 3)),
        le16 (rx s (pos s + 4)) (rx s (pos s + 5))]"
    by (simp add: data_get_eq sample_at_def sint_decode)
  moreover have "map sint (fst (lis2mdl_data_get lis2mdl_regs
         (boot (repeating [0x10, 0x00, 0x20, 0x00, 0x30, 0x00, 0xFF, 0xFF])))) = [16, 32, 48]"
    by (simp add: data_get_eq sample_at_def boot_def repeating_def decode_axis_def)
  ultimately show ?thesis by blast
qed

text \<open>
  C3. The array \<^verbatim>\<open>rawData\<close> has 6 elements and the read asks for 8 bytes:
  every call of \<^verbatim>\<open>lis2mdl_data_get\<close> stores the seventh and the eighth
  byte the bus returns behind the end of the array. The requested count
  exceeds the capacity of the receiving array by two.
\<close>

theorem data_get_spills:
  "spill (snd (lis2mdl_data_get R s)) = spill s @ [rx s (pos s + 6), rx s (pos s + 7)]"
  by (simp add: data_get_eq)

section \<open>The sampling loops\<close>

lemma after_reads_0: "after_reads R 0 d s = s"
  by (simp add: after_reads_def reads_def spilled_def)

lemma after_reads_proj [simp]:
  "pos (after_reads R n d s) = pos s + 8 * n"
  "rx (after_reads R n d s) = rx s"
  "trace (after_reads R n d s) = trace s @ reads R n d"
  "spill (after_reads R n d s) = spill s @ spilled (rx s) (pos s) n"
  "intPin (after_reads R n d s) = intPin s"
  "gpio (after_reads R n d s) = gpio s"
  by (simp_all add: after_reads_def)

lemma upt_Suc_shift: "[0 ..< Suc n] = 0 # map Suc [0 ..< n]"
  by (simp only: upt_conv_Cons[of 0 "Suc n"] map_Suc_upt)

lemma samples_from_Suc: "samples_from f p (Suc n) = sample_at f p # samples_from f (p + 8) n"
  unfolding samples_from_def upt_Suc_shift by (simp add: o_def add.assoc)

lemma spilled_Suc: "spilled f p (Suc n) = [f (p + 6), f (p + 7)] @ spilled f (p + 8) n"
  unfolding spilled_def upt_Suc_shift
  by (simp add: o_def add.assoc add.commute add.left_commute)

lemma reads_Suc: "reads R (Suc n) d = [read_vector_event R, Delay d] @ reads R n d"
  by (simp add: reads_def)

lemma after_reads_Suc:
  "after_reads R n d
     (s\<lparr>pos := pos s + 8, trace := trace s @ [read_vector_event R, Delay d],
        spill := spill s @ [rx s (pos s + 6), rx s (pos s + 7)]\<rparr>) = after_reads R (Suc n) d s"
  by (simp add: after_reads_def reads_Suc spilled_Suc add.assoc)

lemma read_then_delay:
  "delay d (snd (lis2mdl_data_get R s)) =
     s\<lparr>pos := pos s + 8, trace := trace s @ [read_vector_event R, Delay d],
        spill := spill s @ [rx s (pos s + 6), rx s (pos s + 7)]\<rparr>"
  by (simp add: data_get_eq delay_def emit_def)

lemma sampling_loop_eq:
  "sampling_loop R n (e, s) =
     (fold update_extrema (samples_from (rx s) (pos s) n) e, after_reads R n 12 s)"
proof (induction n arbitrary: e s)
  case 0
  show ?case by (simp add: samples_from_def after_reads_0)
next
  case (Suc n)
  have "sampling_loop R (Suc n) (e, s) =
        sampling_loop R n
          (update_extrema (sample_at (rx s) (pos s)) e, delay 12 (snd (lis2mdl_data_get R s)))"
    by (simp add: data_get_eq Let_def)
  also have "\<dots> =
        (fold update_extrema (samples_from (rx s) (pos s + 8) n)
           (update_extrema (sample_at (rx s) (pos s)) e),
         after_reads R (Suc n) 12 s)"
    unfolding read_then_delay Suc.IH by (simp add: after_reads_Suc)
  finally show ?case by (simp add: samples_from_Suc)
qed

lemma sum_loop_eq:
  "sum_loop R n (sumv, s) =
     (fold add_sample (samples_from (rx s) (pos s) n) sumv, after_reads R n 50 s)"
proof (induction n arbitrary: sumv s)
  case 0
  show ?case by (simp add: samples_from_def after_reads_0)
next
  case (Suc n)
  have "sum_loop R (Suc n) (sumv, s) =
        sum_loop R n
          (add_sample (sample_at (rx s) (pos s)) sumv, delay 50 (snd (lis2mdl_data_get R s)))"
    by (simp add: data_get_eq Let_def)
  also have "\<dots> =
        (fold add_sample (samples_from (rx s) (pos s + 8) n)
           (add_sample (sample_at (rx s) (pos s)) sumv),
         after_reads R (Suc n) 50 s)"
    unfolding read_then_delay Suc.IH by (simp add: after_reads_Suc)
  finally show ?case by (simp add: samples_from_Suc)
qed

lemma calibration_pass_eq:
  "calibration_pass R s =
     (feed (samples_from (rx s) (pos s) 4000),
      after_reads R 4000 12
        (s\<lparr>trace := trace s @
           [Println ''Calculate mag offset bias: move all around to sample the complete response surface!'',
            Delay 4000]\<rparr>))"
  by (simp add: calibration_pass_def sampling_loop_eq feed_def delay_def emit_def)

lemma offset_bias_trace:
  "trace (snd (lis2mdl_offset_bias F R s)) =
     trace s @
       [Println ''Calculate mag offset bias: move all around to sample the complete response surface!'',
        Delay 4000]
       @ reads R 4000 12 @ [Println ''Mag Calibration done!'']"
  by (simp add: lis2mdl_offset_bias_def calibration_pass_eq emit_def)

lemma offset_bias_result:
  "fst (lis2mdl_offset_bias F R s) =
     (hard_iron F (bias_counts R s), soft_iron F (scale_bases R s))"
  by (simp add: lis2mdl_offset_bias_def split_beta bias_counts_def scale_bases_def pass_extrema_def)

lemma device_regs_append:
  "device_regs dev (xs @ ys) regs = device_regs dev ys (device_regs dev xs regs)"
  by (simp add: device_regs_def)

lemma device_regs_reads: "device_regs dev (reads R n d) regs = regs"
  by (induction n) (simp_all add: reads_def device_regs_def read_vector_event_def)

lemma bus_traffic_append: "bus_traffic (xs @ ys) = bus_traffic xs @ bus_traffic ys"
  by (simp add: bus_traffic_def)

lemma bus_traffic_reads: "bus_traffic (reads R n d) = replicate n (read_vector_event R)"
  by (induction n) (simp_all add: reads_def bus_traffic_def read_vector_event_def)

text \<open>
  C8. A calibration adds to the trace the prompt, the warm-up delay, 4000
  times a vector read followed by a 12 ms delay, and the completion message,
  and nothing else: its bus traffic is 4000 vector reads, its extrema are
  those of the 4000 samples these reads decode, and no event of it changes
  a register of the device.
\<close>

theorem calibration_reads_only:
  "added s (snd (lis2mdl_offset_bias F R s)) =
     [Println ''Calculate mag offset bias: move all around to sample the complete response surface!'',
      Delay 4000]
     @ concat (replicate 4000 [read_vector_event R, Delay 12])
     @ [Println ''Mag Calibration done!'']
   \<and> bus_traffic (added s (snd (lis2mdl_offset_bias F R s))) = replicate 4000 (read_vector_event R)
   \<and> read_vector_event R = Transfer (LIS2MDL_ADDRESS R) [0x80 OR LIS2MDL_OUTX_L_REG R] 8
   \<and> pass_extrema R s = feed (samples_from (rx s) (pos s) 4000)
   \<and> length (samples_from (rx s) (pos s) 4000) = 4000
   \<and> pos (snd (lis2mdl_offset_bias F R s)) = pos s + 8 * 4000
   \<and> device_regs (LIS2MDL_ADDRESS R) (added s (snd (lis2mdl_offset_bias F R s))) regs = regs"
proof -
  have a: "added s (snd (lis2mdl_offset_bias F R s)) =
     [Println ''Calculate mag offset bias: move all around to sample the complete response surface!'',
      Delay 4000]
     @ reads R 4000 12 @ [Println ''Mag Calibration done!'']"
    by (rule added_append) (simp add: offset_bias_trace)
  have "bus_traffic (added s (snd (lis2mdl_offset_bias F R s))) = replicate 4000 (read_vector_event R)"
    unfolding a bus_traffic_append bus_traffic_reads by (simp add: bus_traffic_def)
  moreover have "device_regs (LIS2MDL_ADDRESS R) (added s (snd (lis2mdl_offset_bias F R s))) regs = regs"
    unfolding a device_regs_append device_regs_reads by (simp add: device_regs_def)
  moreover have "pass_extrema R s = feed (samples_from (rx s) (pos s) 4000)"
    by (simp add: pass_extrema_def calibration_pass_eq)
  moreover have "length (samples_from (rx s) (pos s) 4000) = 4000"
    by (simp add: samples_from_def)
  moreover have "pos (snd (lis2mdl_offset_bias F R s)) = pos s + 8 * 4000"
    by (simp add: lis2mdl_offset_bias_def calibration_pass_eq emit_def)
  moreover have "read_vector_event R = Transfer (LIS2MDL_ADDRESS R) [0x80 OR LIS2MDL_OUTX_L_REG R] 8"
    by (simp add: read_vector_event_def)
  ultimately show ?thesis using a by (simp add: reads_def)
qed

section \<open>Running extrema\<close>

lemma list3: "length xs = 3 \<Longrightarrow> \<exists>a b c. xs = [a, b, c]"
  by (auto simp add: length_Suc_conv numeral_3_eq_3)

lemma wf_extrema_cases:
  assumes "wf_extrema e"
  obtains a0 a1 a2 b0 b1 b2 where "e = ([a0, a1, a2], [b0, b1, b2])"
  using assms list3[of "fst e"] list3[of "snd e"] unfolding wf_extrema_def
  by (cases e) auto

lemma update_extrema_3:
  "update_extrema v ([a0, a1, a2], [b0, b1, b2]) =
     ([upd_max (v ! 0) a0, upd_max (v ! 1) a1, upd_max (v ! 2) a2],
      [upd_min (v ! 0) b0, upd_min (v ! 1) b1, upd_min (v ! 2) b2])"
  by (simp add: update_extrema_def update_axis_def upd_max_def upd_min_def Let_def)

lemma wf_init: "wf_extrema extrema_init"
  by (simp add: wf_extrema_def extrema_init_def)

lemma wf_update: "wf_extrema e \<Longrightarrow> wf_extrema (update_extrema v e)"
  by (erule wf_extrema_cases) (simp add: update_extrema_3 wf_extrema_def)

lemma ordered_update:
  assumes "ordered e"
  shows "ordered (update_extrema v e)"
proof -
  from assms have "wf_extrema e" by (simp add: ordered_def)
  then obtain a0 a1 a2 b0 b1 b2 where e: "e = ([a0, a1, a2], [b0, b1, b2])"
    by (rule wf_extrema_cases)
  show ?thesis using assms unfolding e update_extrema_3
    by (simp add: ordered_def wf_extrema_def upd_max_def upd_min_def)
qed

lemma sint16_le: "sint (x :: i16) \<le> 32767"
  using sint_lt[of x] by simp

lemma sint16_ge: "- 32768 \<le> sint (x :: i16)"
  using sint_ge[of x] by simp

lemma upd_max_init: "upd_max t (- 32767) = (if sint t = - 32768 then - 32767 else t)"
proof (cases "sint t > - 32767")
  case True
  then show ?thesis by (simp add: upd_max_def)
next
  case False
  then have "sint t = - 32768 \<or> sint t = - 32767" using sint16_ge[of t] by arith
  then show ?thesis
  proof
    assume "sint t = - 32768"
    then show ?thesis by (simp add: upd_max_def)
  next
    assume "sint t = - 32767"
    then have "sint t = sint (- 32767 :: i16)" by simp
    then have "t = - 32767" by (rule signed_word_eqI)
    then show ?thesis by (simp add: upd_max_def)
  qed
qed

lemma upd_min_init: "upd_min t 32767 = t"
proof (cases "sint t < 32767")
  case True
  then show ?thesis by (simp add: upd_min_def)
next
  case False
  then have "sint t = sint (32767 :: i16)" using sint16_le[of t] by simp
  then have "t = 32767" by (rule signed_word_eqI)
  then show ?thesis by (simp add: upd_min_def)
qed

lemma first_sample:
  "update_extrema v extrema_init =
     ([if sint (v ! 0) = - 32768 then - 32767 else v ! 0,
       if sint (v ! 1) = - 32768 then - 32767 else v ! 1,
       if sint (v ! 2) = - 32768 then - 32767 else v ! 2], [v ! 0, v ! 1, v ! 2])"
  unfolding extrema_init_def update_extrema_3 by (simp only: upd_max_init upd_min_init)

lemma ordered_first: "ordered (update_extrema v extrema_init)"
  unfolding first_sample
  using sint16_ge[of "v ! 0"] sint16_ge[of "v ! 1"] sint16_ge[of "v ! 2"]
  by (simp add: ordered_def wf_extrema_def)

lemma ordered_fold: "ordered e \<Longrightarrow> ordered (fold update_extrema vs e)"
  by (induction vs arbitrary: e) (simp_all add: ordered_update)

lemma feed_ordered: "samples \<noteq> [] \<Longrightarrow> ordered (feed samples)"
  by (cases samples) (simp_all add: feed_def ordered_fold ordered_first)

lemma ordered_nth: "ordered e \<Longrightarrow> j < 3 \<Longrightarrow> sint (snd e ! j) \<le> sint (fst e ! j)"
proof -
  assume o: "ordered e" and "j < 3"
  then have "j = 0 \<or> j = 1 \<or> j = 2" by arith
  then show ?thesis using o by (auto simp add: ordered_def)
qed

lemma nth3: "j < 3 \<Longrightarrow> [f 0, f 1, f (2::nat)] ! j = f j"
proof -
  assume "j < 3"
  then have "j = 0 \<or> j = 1 \<or> j = 2" by arith
  then show ?thesis by auto
qed

text \<open>
  C7, as the code has it. After at least one sample, the maximum of every
  axis is at least its minimum. After exactly one sample \<open>v\<close>, the minimum
  of an axis is the sample's value, and the maximum is the sample's value
  unless that value is \<open>- 32768\<close>: the maximum starts at \<open>- 32767\<close>, which a
  sample of \<open>- 32768\<close> does not exceed.
\<close>

theorem extrema_after_samples:
  assumes "samples \<noteq> []" and "j < 3"
  shows "sint (snd (feed samples) ! j) \<le> sint (fst (feed samples) ! j)
    \<and> snd (feed [v]) ! j = v ! j
    \<and> fst (feed [v]) ! j = (if sint (v ! j) = - 32768 then - 32767 else v ! j)"
proof -
  have "sint (snd (feed samples) ! j) \<le> sint (fst (feed samples) ! j)"
    using feed_ordered[OF assms(1)] assms(2) by (rule ordered_nth)
  moreover have "snd (feed [v]) ! j = v ! j"
    using nth3[OF assms(2), of "\<lambda>k. v ! k"] by (simp add: feed_def first_sample)
  moreover have "fst (feed [v]) ! j = (if sint (v ! j) = - 32768 then - 32767 else v ! j)"
    using nth3[OF assms(2), of "\<lambda>k. if sint (v ! k) = - 32768 then - 32767 else v ! k"]
    by (simp add: feed_def first_sample)
  ultimately show ?thesis by blast
qed

theorem extrema_after_samples_witness:
  "[[100, 0, 0], [- 50, 0, 0 :: i16]] \<noteq> [] \<and> (0 :: nat) < 3
   \<and> sint (snd (feed [[100, 0, 0], [- 50, 0, 0]]) ! 0) \<le> sint (fst (feed [[100, 0, 0], [- 50, 0, 0]]) ! 0)
   \<and> snd (feed [[7, 8, 9]]) ! 0 = 7
   \<and> fst (feed [[7, 8, 9]]) ! 0 = 7"
  using extrema_after_samples[of "[[100, 0, 0], [- 50, 0, 0]]" 0 "[7, 8, 9]"]
  by simp

text \<open>
  The single sample \<open>- 32768\<close> on the first axis: the recorded maximum is
  \<open>- 32767\<close>, not the sample's value.
\<close>

theorem single_sample_counterexample:
  "fst (feed [[- 32768, 0, 0]]) ! 0 = - 32767
   \<and> fst (feed [[- 32768, 0, 0]]) ! 0 \<noteq> [- 32768, 0, 0] ! 0"
  by (simp add: feed_def first_sample)

section \<open>Bias and scale\<close>

lemma sint_scast_add: "sint ((scast (a :: i16) :: i32) + scast (b :: i16)) = sint a + sint b"
proof -
  have "sint ((scast a :: i32) + scast b) = signed_take_bit 31 (sint a + sint b)"
    by (simp add: sint_word_ariths sint_up_scast is_up)
  also have "\<dots> = sint a + sint b"
    by (rule signed_take_bit_int_eq_self)
      (use sint16_ge[of a] sint16_le[of a] sint16_ge[of b] sint16_le[of b] in simp_all)
  finally show ?thesis .
qed

lemma sint_scast_diff: "sint ((scast (a :: i16) :: i32) - scast (b :: i16)) = sint a - sint b"
proof -
  have "sint ((scast a :: i32) - scast b) = signed_take_bit 31 (sint a - sint b)"
    by (simp add: sint_word_ariths sint_up_scast is_up)
  also have "\<dots> = sint a - sint b"
    by (rule signed_take_bit_int_eq_self)
      (use sint16_ge[of a] sint16_le[of a] sint16_ge[of b] sint16_le[of b] in simp_all)
  finally show ?thesis .
qed

lemma sdiv2_if: "(k :: int) sdiv 2 = (if k < 0 then - ((- k) div 2) else k div 2)"
  by (simp add: signed_divide_int_def sgn_if)

lemma sdiv2_bounds:
  fixes k :: int
  assumes "- 65536 \<le> k" "k \<le> 65535"
  shows "- 32768 \<le> k sdiv 2" "k sdiv 2 \<le> 32767"
proof -
  show "- 32768 \<le> k sdiv 2"
    unfolding sdiv2_if using assms by (simp split: if_splits) arith
  show "k sdiv 2 \<le> 32767"
    unfolding sdiv2_if using assms by (simp split: if_splits) arith
qed

lemma sdiv2_nonneg: "0 \<le> (k :: int) \<Longrightarrow> 0 \<le> k sdiv 2"
  by (simp add: sdiv2_if)

lemma sint_c_div_2:
  assumes "- 65536 \<le> sint a" "sint a \<le> 65535"
  shows "sint (c_div a 2) = sint a sdiv 2"
proof -
  have "sint (c_div a 2) = signed_take_bit 31 (sint a sdiv 2)"
    by (simp add: c_div_def sint_sbintrunc')
  also have "\<dots> = sint a sdiv 2"
    by (rule signed_take_bit_int_eq_self) (use sdiv2_bounds[OF assms] in simp_all)
  finally show ?thesis .
qed

lemma bias_axis:
  "sint (c_div (scast (a :: i16) + scast (b :: i16)) 2) = (sint a + sint b) sdiv 2"
  using sint_c_div_2[of "scast a + scast b"]
    sint16_ge[of a] sint16_le[of a] sint16_ge[of b] sint16_le[of b]
  by (simp add: sint_scast_add)

lemma scale_axis:
  "sint (c_div (scast (a :: i16) - scast (b :: i16)) 2) = (sint a - sint b) sdiv 2"
  using sint_c_div_2[of "scast a - scast b"]
    sint16_ge[of a] sint16_le[of a] sint16_ge[of b] sint16_le[of b]
  by (simp add: sint_scast_diff)

lemma scale_axis_bounds:
  "- 32768 \<le> sint (c_div (scast (a :: i16) - scast (b :: i16)) 2)"
  "sint (c_div (scast (a :: i16) - scast (b :: i16)) 2) \<le> 32767"
  unfolding scale_axis
  using sdiv2_bounds[of "sint a - sint b"]
    sint16_ge[of a] sint16_le[of a] sint16_ge[of b] sint16_le[of b]
  by simp_all

lemma sint_add3:
  fixes x y z :: i32
  assumes "- 32768 \<le> sint x" "sint x \<le> 32767" "- 32768 \<le> sint y" "sint y \<le> 32767"
    "- 32768 \<le> sint z" "sint z \<le> 32767"
  shows "sint (x + y + z) = sint x + sint y + sint z"
proof -
  have "sint (x + y) = signed_take_bit 31 (sint x + sint y)"
    by (simp add: sint_word_ariths)
  also have "\<dots> = sint x + sint y"
    by (rule signed_take_bit_int_eq_self) (use assms in simp_all)
  finally have xy: "sint (x + y) = sint x + sint y" .
  have "sint (x + y + z) = signed_take_bit 31 (sint (x + y) + sint z)"
    by (simp add: sint_word_ariths)
  also have "\<dots> = sint (x + y) + sint z"
    by (rule signed_take_bit_int_eq_self) (use assms xy in simp_all)
  finally show ?thesis using xy by simp
qed

lemma scale_sum:
  "sint (mag_scale_counts e ! 0 + mag_scale_counts e ! 1 + mag_scale_counts e ! 2) =
   sint (mag_scale_counts e ! 0) + sint (mag_scale_counts e ! 1) + sint (mag_scale_counts e ! 2)"
  by (cases e) (simp add: mag_scale_counts_def sint_add3 scale_axis_bounds)

lemma mag_scale_nth:
  "j < 3 \<Longrightarrow> sint (mag_scale_counts e ! j) = (sint (fst e ! j) - sint (snd e ! j)) sdiv 2"
  using nth3[of j "\<lambda>k. c_div (scast (fst e ! k) - scast (snd e ! k)) 2"]
  by (cases e) (simp add: mag_scale_counts_def scale_axis)

lemma soft_iron_nth:
  "j < 3 \<Longrightarrow> soft_iron F sc ! j = f_div F (avg_rad F sc) (f_of_int F (sint (sc ! j)))"
  using nth3[of j "\<lambda>k. f_div F (avg_rad F sc) (f_of_int F (sint (sc ! k)))"]
  by (simp add: soft_iron_def)

lemma avg_rad_exact:
  "avg_rad exact_arith (mag_scale_counts e) =
     Fin (of_int (sint (mag_scale_counts e ! 0) + sint (mag_scale_counts e ! 1)
                  + sint (mag_scale_counts e ! 2)) / 3)"
  unfolding avg_rad_def scale_sum by (simp add: exact_arith_def)

lemma pass_ordered: "ordered (pass_extrema R s)"
proof -
  have "samples_from (rx s) (pos s) 4000 \<noteq> []"
    by (simp add: samples_from_def)
  then show ?thesis
    by (simp add: pass_extrema_def calibration_pass_eq feed_ordered)
qed

lemma scale_nonneg:
  assumes "ordered e"
  shows "0 \<le> sint (mag_scale_counts e ! 0) + sint (mag_scale_counts e ! 1)
              + sint (mag_scale_counts e ! 2)"
proof -
  have "0 \<le> sint (mag_scale_counts e ! j)" if "j < 3" for j
    using ordered_nth[OF assms that] by (simp add: mag_scale_nth[OF that] sdiv2_nonneg)
  from this[of 0] this[of 1] this[of 2] show ?thesis by simp
qed

text \<open>
  C5. The soft-iron vector a calibration returns holds, for each axis, the
  floating-point quotient of \<open>avg_rad\<close> by the converted scale basis of that
  axis, and \<open>avg_rad\<close> is the floating-point quotient by \<^verbatim>\<open>3.0f\<close> of the
  converted sum of the three scale bases; the integer sum does not wrap.
  Without rounding, \<open>avg_rad\<close> is the rational mean: the scale bases 1, 1, 2
  give 4/3, where an integer division would give 1.
\<close>

theorem soft_iron_is_quotient:
  "snd (fst (lis2mdl_offset_bias F R s)) =
     [f_div F (avg_rad F (scale_bases R s)) (f_of_int F (sint (scale_bases R s ! 0))),
      f_div F (avg_rad F (scale_bases R s)) (f_of_int F (sint (scale_bases R s ! 1))),
      f_div F (avg_rad F (scale_bases R s)) (f_of_int F (sint (scale_bases R s ! 2)))]
   \<and> avg_rad F (scale_bases R s) =
       f_div F (f_of_int F (sint (scale_bases R s ! 0) + sint (scale_bases R s ! 1)
                            + sint (scale_bases R s ! 2))) (f_lit F 3)
   \<and> avg_rad exact_arith (scale_bases R s) =
       Fin (of_int (sint (scale_bases R s ! 0) + sint (scale_bases R s ! 1)
                    + sint (scale_bases R s ! 2)) / 3)
   \<and> avg_rad exact_arith [1, 1, 2] = Fin (4 / 3)
   \<and> soft_iron exact_arith [1, 1, 2] = [Fin (4 / 3), Fin (4 / 3), Fin (2 / 3)]"
proof -
  have "snd (fst (lis2mdl_offset_bias F R s)) =
     [f_div F (avg_rad F (scale_bases R s)) (f_of_int F (sint (scale_bases R s ! 0))),
      f_div F (avg_rad F (scale_bases R s)) (f_of_int F (sint (scale_bases R s ! 1))),
      f_div F (avg_rad F (scale_bases R s)) (f_of_int F (sint (scale_bases R s ! 2)))]"
    by (simp add: offset_bias_result soft_iron_def)
  moreover have "avg_rad F (scale_bases R s) =
       f_div F (f_of_int F (sint (scale_bases R s ! 0) + sint (scale_bases R s ! 1)
                            + sint (scale_bases R s ! 2))) (f_lit F 3)"
    unfolding avg_rad_def scale_bases_def scale_sum by (rule refl)
  moreover have "avg_rad exact_arith (scale_bases R s) =
       Fin (of_int (sint (scale_bases R s ! 0) + sint (scale_bases R s ! 1)
                    + sint (scale_bases R s ! 2)) / 3)"
    unfolding scale_bases_def by (rule avg_rad_exact)
  moreover have "avg_rad exact_arith [1, 1, 2] = Fin (4 / 3)"
    by (simp add: avg_rad_def exact_arith_def)
  moreover have "soft_iron exact_arith [1, 1, 2] = [Fin (4 / 3), Fin (4 / 3), Fin (2 / 3)]"
    by (simp add: soft_iron_def avg_rad_def exact_arith_def)
  ultimately show ?thesis by blast
qed

text \<open>
  C6. For each axis the bias in counts is \<open>(max + min) sdiv 2\<close>, the quotient
  truncated toward zero of the sum (which does not wrap), and the offset
  returned is the floating-point product of the converted bias and
  \<^verbatim>\<open>0.0015f\<close>. The x samples 100, -50, 300, 10 give the extrema 300 and -50,
  the bias 125 and, without rounding, the offset 0.1875 = 3/16; the extrema
  -1 and -2 give the bias -1, not -2.
\<close>

theorem hard_iron_is_truncated_midpoint:
  "sint (bias_counts R s ! 0) = (sint (fst (pass_extrema R s) ! 0) + sint (snd (pass_extrema R s) ! 0)) sdiv 2
   \<and> sint (bias_counts R s ! 1) = (sint (fst (pass_extrema R s) ! 1) + sint (snd (pass_extrema R s) ! 1)) sdiv 2
   \<and> sint (bias_counts R s ! 2) = (sint (fst (pass_extrema R s) ! 2) + sint (snd (pass_extrema R s) ! 2)) sdiv 2
   \<and> fst (fst (lis2mdl_offset_bias F R s)) =
       [f_mul F (f_of_int F (sint (bias_counts R s ! 0))) (f_lit F (15 / 10000)),
        f_mul F (f_of_int F (sint (bias_counts R s ! 1))) (f_lit F (15 / 10000)),
        f_mul F (f_of_int F (sint (bias_counts R s ! 2))) (f_lit F (15 / 10000))]
   \<and> feed [[100, 0, 0], [- 50, 0, 0], [300, 0, 0], [10, 0, 0]] = ([300, 0, 0], [- 50, 0, 0])
   \<and> sint (mag_bias_counts ([300, 0, 0], [- 50, 0, 0]) ! 0) = 125
   \<and> hard_iron exact_arith (mag_bias_counts ([300, 0, 0], [- 50, 0, 0])) ! 0 = Fin (1875 / 10000)
   \<and> sint (mag_bias_counts ([- 1, 0, 0], [- 2, 0, 0]) ! 0) = - 1"
proof -
  have "sint (bias_counts R s ! 0) = (sint (fst (pass_extrema R s) ! 0) + sint (snd (pass_extrema R s) ! 0)) sdiv 2"
    by (cases "pass_extrema R s") (simp add: bias_counts_def mag_bias_counts_def bias_axis)
  moreover have "sint (bias_counts R s ! 1) = (sint (fst (pass_extrema R s) ! 1) + sint (snd (pass_extrema R s) ! 1)) sdiv 2"
    by (cases "pass_extrema R s") (simp add: bias_counts_def mag_bias_counts_def bias_axis)
  moreover have "sint (bias_counts R s ! 2) = (sint (fst (pass_extrema R s) ! 2) + sint (snd (pass_extrema R s) ! 2)) sdiv 2"
    by (cases "pass_extrema R s") (simp add: bias_counts_def mag_bias_counts_def bias_axis)
  moreover have "fst (fst (lis2mdl_offset_bias F R s)) =
       [f_mul F (f_of_int F (sint (bias_counts R s ! 0))) (f_lit F (15 / 10000)),
        f_mul F (f_of_int F (sint (bias_counts R s ! 1))) (f_lit F (15 / 10000)),
        f_mul F (f_of_int F (sint (bias_counts R s ! 2))) (f_lit F (15 / 10000))]"
    by (simp add: offset_bias_result hard_iron_def mRes_def)
  moreover have "feed [[100, 0, 0], [- 50, 0, 0], [300, 0, 0], [10, 0, 0]] = ([300, 0, 0], [- 50, 0, 0])"
    by (simp add: feed_def extrema_init_def update_extrema_3 upd_max_def upd_min_def)
  moreover have "sint (mag_bias_counts ([300, 0, 0], [- 50, 0, 0]) ! 0) = 125"
    by (simp add: mag_bias_counts_def c_div_def signed_divide_int_def)
  moreover have "hard_iron exact_arith (mag_bias_counts ([300, 0, 0], [- 50, 0, 0])) ! 0 = Fin (1875 / 10000)"
    by (simp add: hard_iron_def mag_bias_counts_def c_div_def signed_divide_int_def
        exact_arith_def mRes_def)
  moreover have "sint (mag_bias_counts ([- 1, 0, 0], [- 2, 0, 0]) ! 0) = - 1"
    by (simp add: mag_bias_counts_def c_div_def signed_divide_int_def)
  ultimately show ?thesis by blast
qed

section \<open>A degenerate calibration pass\<close>

lemma repeating_k: "repeating bs (8 * i + k) = bs ! (k mod 8)"
  by (simp add: repeating_def)

lemma repeating_0: "repeating bs (8 * i) = bs ! 0"
  by (simp add: repeating_def)

lemma sample_at_repeating:
  "sample_at (repeating bs) (8 * i) =
     [decode_axis (bs ! 1) (bs ! 0), decode_axis (bs ! 3) (bs ! 2), decode_axis (bs ! 5) (bs ! 4)]"
  unfolding sample_at_def repeating_k repeating_0 by simp

lemma samples_from_repeating:
  "samples_from (repeating bs) 0 n =
     replicate n
       [decode_axis (bs ! 1) (bs ! 0), decode_axis (bs ! 3) (bs ! 2), decode_axis (bs ! 5) (bs ! 4)]"
  by (simp add: samples_from_def sample_at_repeating map_replicate_const)

lemma upd_idem: "upd_max t (upd_max t m) = upd_max t m" "upd_min t (upd_min t m) = upd_min t m"
  by (simp_all add: upd_max_def upd_min_def)

lemma update_idem: "wf_extrema e \<Longrightarrow> update_extrema v (update_extrema v e) = update_extrema v e"
  by (erule wf_extrema_cases) (simp add: update_extrema_3 upd_idem)

lemma fold_replicate_same:
  "wf_extrema e \<Longrightarrow> fold update_extrema (replicate (Suc n) v) e = update_extrema v e"
  by (induction n arbitrary: e) (simp_all add: update_idem wf_update)

lemma pass_repeating:
  "pass_extrema R (boot (repeating bs)) =
     update_extrema
       [decode_axis (bs ! 1) (bs ! 0), decode_axis (bs ! 3) (bs ! 2), decode_axis (bs ! 5) (bs ! 4)]
       extrema_init"
proof -
  have "(4000 :: nat) = Suc 3999" by simp
  then show ?thesis
    by (simp only: pass_extrema_def calibration_pass_eq fst_conv boot_def machine.simps
        samples_from_repeating feed_def fold_replicate_same[OF wf_init])
qed

lemma pass_c42: "pass_extrema R (boot c42) = ([42, 42, 42], [42, 42, 42])"
  unfolding c42_def pass_repeating first_sample by (simp add: decode_axis_def)

lemma pass_cmin: "pass_extrema R (boot cmin) = ([- 32767, 42, 42], [- 32768, 42, 42])"
  unfolding cmin_def pass_repeating first_sample by (simp add: decode_axis_def)

lemma axis_values_repeating:
  "axis_values (boot (repeating bs)) j =
     replicate 4000
       (sint ([decode_axis (bs ! 1) (bs ! 0), decode_axis (bs ! 3) (bs ! 2),
               decode_axis (bs ! 5) (bs ! 4)] ! j))"
  by (simp add: axis_values_def boot_def samples_from_repeating)

lemma zero_range_repeating: "zero_range (boot (repeating bs)) j"
  by (simp add: zero_range_def axis_values_repeating)

text \<open>An axis of zero range has the same value in every sample.\<close>

lemma zero_range_constant:
  assumes "zero_range s j" and "v \<in> set (samples_from (rx s) (pos s) 4000)"
  shows "v ! j = sample_at (rx s) (pos s) ! j"
proof -
  let ?A = "set (axis_values s j)"
  have fin: "finite ?A" by simp
  have "(4000 :: nat) = Suc 3999" by simp
  then have h: "samples_from (rx s) (pos s) 4000 =
      sample_at (rx s) (pos s) # samples_from (rx s) (pos s + 8) 3999"
    by (simp only: samples_from_Suc)
  have v: "sint (v ! j) \<in> ?A"
    using assms(2) by (simp add: axis_values_def)
  have w: "sint (sample_at (rx s) (pos s) ! j) \<in> ?A"
    unfolding axis_values_def h by simp
  have eq: "Max ?A = Min ?A"
    using assms(1) by (simp add: zero_range_def)
  have "Min ?A \<le> sint (v ! j)" "sint (v ! j) \<le> Max ?A"
    using v fin by (simp_all only: Min_le Max_ge)
  moreover have "Min ?A \<le> sint (sample_at (rx s) (pos s) ! j)"
    "sint (sample_at (rx s) (pos s) ! j) \<le> Max ?A"
    using w fin by (simp_all only: Min_le Max_ge)
  ultimately have "sint (v ! j) = sint (sample_at (rx s) (pos s) ! j)"
    using eq by simp
  then show ?thesis by (rule signed_word_eqI)
qed

text \<open>Each axis of the running extrema follows the values of that axis alone.\<close>

lemma update_extrema_nth:
  assumes "wf_extrema e" and "j < 3"
  shows "fst (update_extrema v e) ! j = upd_max (v ! j) (fst e ! j)"
    and "snd (update_extrema v e) ! j = upd_min (v ! j) (snd e ! j)"
proof -
  from assms(1) obtain a0 a1 a2 b0 b1 b2 where e: "e = ([a0, a1, a2], [b0, b1, b2])"
    by (rule wf_extrema_cases)
  from assms(2) have j: "j = 0 \<or> j = 1 \<or> j = 2" by arith
  show "fst (update_extrema v e) ! j = upd_max (v ! j) (fst e ! j)"
    unfolding e update_extrema_3 using j by auto
  show "snd (update_extrema v e) ! j = upd_min (v ! j) (snd e ! j)"
    unfolding e update_extrema_3 using j by auto
qed

lemma fold_constant_axis:
  assumes "wf_extrema e" and "j < 3" and "\<forall>v \<in> set vs. v ! j = t" and "w ! j = t"
  shows "fst (fold update_extrema vs (update_extrema w e)) ! j = fst (update_extrema w e) ! j
       \<and> snd (fold update_extrema vs (update_extrema w e)) ! j = snd (update_extrema w e) ! j"
  using assms
proof (induction vs arbitrary: e w)
  case Nil
  show ?case by simp
next
  case (Cons v vs)
  have v: "v ! j = t" and vs: "\<forall>v \<in> set vs. v ! j = t"
    using Cons.prems(3) by simp_all
  have wf: "wf_extrema (update_extrema w e)"
    using Cons.prems(1) by (rule wf_update)
  have same: "fst (update_extrema v (update_extrema w e)) ! j = fst (update_extrema w e) ! j"
    "snd (update_extrema v (update_extrema w e)) ! j = snd (update_extrema w e) ! j"
    by (simp_all add: update_extrema_nth[OF wf Cons.prems(2)]
        update_extrema_nth[OF Cons.prems(1) Cons.prems(2)] v Cons.prems(4) upd_idem)
  from Cons.IH[OF wf Cons.prems(2) vs v] same show ?case by simp
qed

lemma extrema_init_nth: "j < 3 \<Longrightarrow> fst extrema_init ! j = - 32767 \<and> snd extrema_init ! j = 32767"
  using nth3[of j "\<lambda>k. - 32767 :: i16"] nth3[of j "\<lambda>k. 32767 :: i16"]
  by (simp add: extrema_init_def)

lemma zero_range_extrema:
  assumes "zero_range s j" and "j < 3"
  shows "fst (pass_extrema R s) ! j =
           (if sint (sample_at (rx s) (pos s) ! j) = - 32768 then - 32767
            else sample_at (rx s) (pos s) ! j)
       \<and> snd (pass_extrema R s) ! j = sample_at (rx s) (pos s) ! j"
proof -
  let ?w = "sample_at (rx s) (pos s)"
  let ?vs = "samples_from (rx s) (pos s + 8) 3999"
  have "(4000 :: nat) = Suc 3999" by simp
  then have h: "samples_from (rx s) (pos s) 4000 = ?w # ?vs"
    by (simp only: samples_from_Suc)
  have c: "\<forall>v \<in> set ?vs. v ! j = ?w ! j"
  proof
    fix v assume "v \<in> set ?vs"
    then have "v \<in> set (samples_from (rx s) (pos s) 4000)" unfolding h by simp
    with assms(1) show "v ! j = ?w ! j" by (rule zero_range_constant)
  qed
  have p: "pass_extrema R s = fold update_extrema ?vs (update_extrema ?w extrema_init)"
    unfolding pass_extrema_def calibration_pass_eq fst_conv feed_def h by simp
  have "fst (pass_extrema R s) ! j = fst (update_extrema ?w extrema_init) ! j
      \<and> snd (pass_extrema R s) ! j = snd (update_extrema ?w extrema_init) ! j"
    unfolding p using wf_init assms(2) c refl by (rule fold_constant_axis)
  then show ?thesis
    using extrema_init_nth[OF assms(2)]
    by (simp add: update_extrema_nth[OF wf_init assms(2)] upd_max_init upd_min_init)
qed

lemma zero_range_scale:
  assumes "zero_range s j" and "j < 3"
  shows "sint (scale_bases R s ! j) = 0"
proof -
  let ?t = "sample_at (rx s) (pos s) ! j"
  have "sint (fst (pass_extrema R s) ! j) - sint (snd (pass_extrema R s) ! j) =
        (if sint ?t = - 32768 then 1 else 0)"
    using zero_range_extrema[OF assms, of R] by simp
  then show ?thesis
    unfolding scale_bases_def mag_scale_nth[OF assms(2)]
    by (simp add: signed_divide_int_def)
qed

lemma x_div_zero: "0 \<le> q \<Longrightarrow> x_div (Fin q) (Fin 0) = (if Fin q = Fin 0 then NaN else PInf)"
  by (simp add: x_inf_def sgn_if)

text \<open>
  C2, as the code has it. The driver has no error path: a calibration in
  which an axis has zero range returns both vectors like any other, and the
  soft-iron scale of that axis is the floating-point quotient of \<open>avg_rad\<close> by
  the converted integer 0. Without rounding that quotient is not a number
  when \<open>avg_rad\<close> is 0, and plus infinity otherwise.
\<close>

theorem degenerate_pass_returns_quotient:
  assumes "zero_range s j" and "j < 3"
  shows "snd (fst (lis2mdl_offset_bias F R s)) = soft_iron F (scale_bases R s)
    \<and> soft_iron F (scale_bases R s) ! j = f_div F (avg_rad F (scale_bases R s)) (f_of_int F 0)
    \<and> soft_iron exact_arith (scale_bases R s) ! j =
        (if avg_rad exact_arith (scale_bases R s) = Fin 0 then NaN else PInf)"
proof -
  have z: "sint (scale_bases R s ! j) = 0"
    using assms by (rule zero_range_scale)
  have "snd (fst (lis2mdl_offset_bias F R s)) = soft_iron F (scale_bases R s)"
    by (simp add: offset_bias_result)
  moreover have "soft_iron F (scale_bases R s) ! j =
      f_div F (avg_rad F (scale_bases R s)) (f_of_int F 0)"
    by (simp add: soft_iron_nth[OF assms(2)] z)
  moreover have "soft_iron exact_arith (scale_bases R s) ! j =
        (if avg_rad exact_arith (scale_bases R s) = Fin 0 then NaN else PInf)"
  proof -
    let ?q = "of_int (sint (scale_bases R s ! 0) + sint (scale_bases R s ! 1)
                      + sint (scale_bases R s ! 2)) / (3 :: rat)"
    have "0 \<le> sint (scale_bases R s ! 0) + sint (scale_bases R s ! 1)
                + sint (scale_bases R s ! 2)"
      unfolding scale_bases_def using pass_ordered by (rule scale_nonneg)
    then have "(0 :: rat) \<le> of_int (sint (scale_bases R s ! 0) + sint (scale_bases R s ! 1)
                + sint (scale_bases R s ! 2))"
      by (simp only: of_int_0_le_iff)
    then have q: "0 \<le> ?q"
      by (rule divide_nonneg_nonneg) simp
    have a: "avg_rad exact_arith (scale_bases R s) = Fin ?q"
      unfolding scale_bases_def by (rule avg_rad_exact)
    have "soft_iron exact_arith (scale_bases R s) ! j =
            x_div (avg_rad exact_arith (scale_bases R s)) (Fin 0)"
      unfolding soft_iron_nth[OF assms(2)] z by (simp add: exact_arith_def)
    then show ?thesis
      unfolding a using x_div_zero[OF q] by simp
  qed
  ultimately show ?thesis by blast
qed

text \<open>
  An instance: the x axis reads \<open>- 32768\<close> in every sample. The recorded
  maximum of that axis stays at \<open>- 32767\<close>, its scale basis is 0 all the same,
  and so are the other two: the quotient is not a number.
\<close>

theorem degenerate_pass_returns_quotient_witness:
  "zero_range (boot cmin :: xnum machine) 0 \<and> (0 :: nat) < 3
   \<and> snd (fst (lis2mdl_offset_bias exact_arith lis2mdl_regs (boot cmin))) =
       soft_iron exact_arith (scale_bases lis2mdl_regs (boot cmin :: xnum machine))
   \<and> soft_iron exact_arith (scale_bases lis2mdl_regs (boot cmin :: xnum machine)) ! 0 =
       f_div exact_arith (avg_rad exact_arith (scale_bases lis2mdl_regs (boot cmin :: xnum machine)))
         (f_of_int exact_arith 0)
   \<and> soft_iron exact_arith (scale_bases lis2mdl_regs (boot cmin :: xnum machine)) ! 0 = NaN"
proof -
  have h: "zero_range (boot cmin :: xnum machine) 0"
    unfolding cmin_def by (rule zero_range_repeating)
  have a: "avg_rad exact_arith (scale_bases lis2mdl_regs (boot cmin :: xnum machine)) = Fin 0"
    by (simp add: scale_bases_def pass_cmin avg_rad_def mag_scale_counts_def
        c_div_def signed_divide_int_def exact_arith_def)
  from degenerate_pass_returns_quotient[OF h, of exact_arith lis2mdl_regs] h a
  show ?thesis by (simp add: exact_arith_def x_inf_def)
qed

text \<open>
  On the bus where every axis reads 42, every axis has zero range. The
  specification asks for \<open>DegenerateCalibration\<close>; the driver returns a
  soft-iron vector of three NaN.
\<close>

theorem degenerate_counterexample:
  "zero_range (boot c42 :: xnum machine) 0
   \<and> calibrate_spec exact_arith lis2mdl_regs (boot c42) = Inl DegenerateCalibration
   \<and> Inr (fst (lis2mdl_offset_bias exact_arith lis2mdl_regs (boot c42)))
       \<noteq> calibrate_spec exact_arith lis2mdl_regs (boot c42)
   \<and> snd (fst (lis2mdl_offset_bias exact_arith lis2mdl_regs (boot c42))) = [NaN, NaN, NaN]"
proof -
  have z: "zero_range (boot c42 :: xnum machine) 0"
    unfolding c42_def by (rule zero_range_repeating)
  then have c: "calibrate_spec exact_arith lis2mdl_regs (boot c42) = Inl DegenerateCalibration"
    by (simp add: calibrate_spec_def)
  have "snd (fst (lis2mdl_offset_bias exact_arith lis2mdl_regs (boot c42))) = [NaN, NaN, NaN]"
    by (simp add: offset_bias_result scale_bases_def pass_c42 soft_iron_def avg_rad_def
        mag_scale_counts_def c_div_def exact_arith_def x_inf_def)
  with z c show ?thesis by simp
qed

section \<open>Self-test\<close>

lemma self_test_eq:
  "lis2mdl_self_test F R s =
   (let magNom = means F (fold add_sample (samples_from (rx s) (pos s) 50) [0, 0, 0]);
        c = rx s (pos s + 400);
        magTest = means F (fold add_sample (samples_from (rx s) (pos s + 401) 50) [0, 0, 0])
    in s\<lparr>pos := pos s + 801,
         trace := trace s @ reads R 50 50
           @ [Transfer (LIS2MDL_ADDRESS R) [LIS2MDL_CFG_REG_C R] 1,
              Transfer (LIS2MDL_ADDRESS R) [LIS2MDL_CFG_REG_C R, c OR 0x02] 0,
              Delay 100]
           @ reads R 50 50
           @ [Transfer (LIS2MDL_ADDRESS R) [LIS2MDL_CFG_REG_C R, c] 0,
              Delay 100,
              Println ''Mag Self Test:'',
              Print ''Mx results:'',
              PrintNum (delta F magTest magNom 0),
              Println '' mG'',
              Print ''My results:'',
              PrintlnNum (delta F magTest magNom 0),
              Print ''Mz results:'',
              PrintlnNum (delta F magTest magNom 1),
              Println ''Should be between 15 and 500 mG'',
              Delay 2000],
         spill := spill s @ spilled (rx s) (pos s) 50 @ spilled (rx s) (pos s + 401) 50\<rparr>)"
  by (simp add: lis2mdl_self_test_def sum_loop_eq read_byte_eq write_byte_eq delay_def emit_def
      Let_def after_reads_def add.assoc add.commute[of _ "pos s"])

lemma self_test_added:
  "added s (lis2mdl_self_test F R s) =
     reads R 50 50
     @ [Transfer (LIS2MDL_ADDRESS R) [LIS2MDL_CFG_REG_C R] 1,
        Transfer (LIS2MDL_ADDRESS R) [LIS2MDL_CFG_REG_C R, rx s (pos s + 400) OR 0x02] 0,
        Delay 100]
     @ reads R 50 50
     @ [Transfer (LIS2MDL_ADDRESS R) [LIS2MDL_CFG_REG_C R, rx s (pos s + 400)] 0,
        Delay 100,
        Println ''Mag Self Test:'',
        Print ''Mx results:'',
        PrintNum (delta F (means F (fold add_sample (samples_from (rx s) (pos s + 401) 50) [0, 0, 0]))
                          (means F (fold add_sample (samples_from (rx s) (pos s) 50) [0, 0, 0])) 0),
        Println '' mG'',
        Print ''My results:'',
        PrintlnNum (delta F (means F (fold add_sample (samples_from (rx s) (pos s + 401) 50) [0, 0, 0]))
                            (means F (fold add_sample (samples_from (rx s) (pos s) 50) [0, 0, 0])) 0),
        Print ''Mz results:'',
        PrintlnNum (delta F (means F (fold add_sample (samples_from (rx s) (pos s + 401) 50) [0, 0, 0]))
                            (means F (fold add_sample (samples_from (rx s) (pos s) 50) [0, 0, 0])) 1),
        Println ''Should be between 15 and 500 mG'',
        Delay 2000]"
  by (rule added_append) (simp add: self_test_eq Let_def)

lemma self_test_bus_traffic:
  "bus_traffic (added s (lis2mdl_self_test F R s)) =
     replicate 50 (read_vector_event R)
     @ [Transfer (LIS2MDL_ADDRESS R) [LIS2MDL_CFG_REG_C R] 1,
        Transfer (LIS2MDL_ADDRESS R) [LIS2MDL_CFG_REG_C R, rx s (pos s + 400) OR 0x02] 0]
     @ replicate 50 (read_vector_event R)
     @ [Transfer (LIS2MDL_ADDRESS R) [LIS2MDL_CFG_REG_C R, rx s (pos s + 400)] 0]"
  unfolding self_test_added bus_traffic_append bus_traffic_reads
  by (simp add: bus_traffic_def)

lemma self_test_control_read:
  "fst (lis2mdl_read_byte (LIS2MDL_ADDRESS R) (LIS2MDL_CFG_REG_C R)
          (snd (sum_loop R 50 ([0, 0, 0], s)))) = rx s (pos s + 400)"
  by (simp add: sum_loop_eq read_byte_eq)

lemma self_test_regs:
  "device_regs (LIS2MDL_ADDRESS R) (added s (lis2mdl_self_test F R s)) regs =
     regs(LIS2MDL_CFG_REG_C R := rx s (pos s + 400))"
  unfolding self_test_added device_regs_append device_regs_reads
  by (simp add: device_regs_def)

text \<open>
  C9, as the code has it. The bus traffic of a self-test is 50 vector
  reads, the read of the control register, the write of the value read with
  bit 1 (self-test enable) set, 50 vector reads, and the write of the value
  read, unchanged. The value read is the byte the bus delivers after the 400
  bytes of the baseline pass. Replayed on any register file of the device,
  the events of the self-test leave every register as it was, except that
  the control register holds the value that was read from it. The
  self-test bit of the control register is then the one of the value read:
  the write-back clears it exactly when it was clear at the start.
\<close>

theorem self_test_restores_control:
  "bus_traffic (added s (lis2mdl_self_test F R s)) =
     replicate 50 (read_vector_event R)
     @ [Transfer (LIS2MDL_ADDRESS R) [LIS2MDL_CFG_REG_C R] 1,
        Transfer (LIS2MDL_ADDRESS R) [LIS2MDL_CFG_REG_C R, rx s (pos s + 400) OR 0x02] 0]
     @ replicate 50 (read_vector_event R)
     @ [Transfer (LIS2MDL_ADDRESS R) [LIS2MDL_CFG_REG_C R, rx s (pos s + 400)] 0]
   \<and> fst (lis2mdl_read_byte (LIS2MDL_ADDRESS R) (LIS2MDL_CFG_REG_C R)
          (snd (sum_loop R 50 ([0, 0, 0], s)))) = rx s (pos s + 400)
   \<and> device_regs (LIS2MDL_ADDRESS R) (added s (lis2mdl_self_test F R s)) regs =
       regs(LIS2MDL_CFG_REG_C R := rx s (pos s + 400))
   \<and> bit (rx s (pos s + 400) OR 0x02) 1
   \<and> bit (device_regs (LIS2MDL_ADDRESS R) (added s (lis2mdl_self_test F R s)) regs
            (LIS2MDL_CFG_REG_C R)) 1 = bit (rx s (pos s + 400)) 1"
proof -
  have "bit (rx s (pos s + 400) OR 0x02) 1"
    by (simp add: bit_or_iff)
  moreover have "bit (device_regs (LIS2MDL_ADDRESS R) (added s (lis2mdl_self_test F R s)) regs
            (LIS2MDL_CFG_REG_C R)) 1 = bit (rx s (pos s + 400)) 1"
    by (simp add: self_test_regs)
  ultimately show ?thesis
    using self_test_bus_traffic[of s F R] self_test_control_read[of R s]
      self_test_regs[of R s F regs]
    by blast
qed

text \<open>
  A self-test on a device whose control register reads \<open>0x02\<close>, replayed on
  the register file of zeros: the value written back is \<open>0x02\<close>, and the
  self-test bit of the control register is set when the self-test returns.
\<close>

theorem self_test_bit_counterexample:
  "fst (lis2mdl_read_byte (LIS2MDL_ADDRESS lis2mdl_regs) (LIS2MDL_CFG_REG_C lis2mdl_regs)
          (snd (sum_loop lis2mdl_regs 50 ([0, 0, 0], boot st_set_bus :: xnum machine)))) = 0x02
   \<and> last (bus_traffic (added (boot st_set_bus)
          (lis2mdl_self_test exact_arith lis2mdl_regs (boot st_set_bus)))) =
       Transfer 0x1E [0x62, 0x02] 0
   \<and> bit (device_regs (LIS2MDL_ADDRESS lis2mdl_regs)
            (added (boot st_set_bus) (lis2mdl_self_test exact_arith lis2mdl_regs (boot st_set_bus)))
            blank_regs (LIS2MDL_CFG_REG_C lis2mdl_regs)) 1"
proof -
  have c: "rx (boot st_set_bus :: xnum machine) (pos (boot st_set_bus :: xnum machine) + 400) = 0x02"
    by (simp add: boot_def st_set_bus_def selftest_bus_def)
  show ?thesis
    unfolding self_test_control_read self_test_bus_traffic self_test_regs c
    by (simp add: lis2mdl_regs_def)
qed

lemma printed_reads: "printed (reads R n d @ evs) = printed evs"
  by (induction n) (simp_all add: reads_def read_vector_event_def)

lemma self_test_printed:
  "printed (trace (lis2mdl_self_test F R (boot f))) =
   [delta F (means F (fold add_sample (samples_from f 401 50) [0, 0, 0]))
            (means F (fold add_sample (samples_from f 0 50) [0, 0, 0])) 0,
    delta F (means F (fold add_sample (samples_from f 401 50) [0, 0, 0]))
            (means F (fold add_sample (samples_from f 0 50) [0, 0, 0])) 0,
    delta F (means F (fold add_sample (samples_from f 401 50) [0, 0, 0]))
            (means F (fold add_sample (samples_from f 0 50) [0, 0, 0])) 1]"
  by (simp add: self_test_eq Let_def boot_def printed_reads)

lemma mod8: "(8 * i + k) mod 8 = k mod (8 :: nat)"
  by simp

lemma selftest_bus_base:
  "8 * i + k < 400 \<Longrightarrow> selftest_bus base c exc (8 * i + k) = base ! (k mod 8)"
  unfolding selftest_bus_def by (simp only: mod8 if_True)

lemma selftest_bus_exc: "selftest_bus base c exc (401 + (8 * i + k)) = exc ! (k mod 8)"
proof -
  have "401 + (8 * i + k) - 401 = 8 * i + k" by simp
  moreover have "\<not> 401 + (8 * i + k) < 400" "401 + (8 * i + k) \<noteq> 400" by simp_all
  ultimately show ?thesis
    unfolding selftest_bus_def by (simp only: mod8 if_False)
qed

lemma sample_at_base:
  assumes "i < 50"
  shows "sample_at (selftest_bus base c exc) (0 + 8 * i) =
     [decode_axis (base ! 1) (base ! 0), decode_axis (base ! 3) (base ! 2),
      decode_axis (base ! 5) (base ! 4)]"
proof -
  have "selftest_bus base c exc (0 + 8 * i) = base ! 0"
    using selftest_bus_base[of i 0 base c exc] assms by simp
  moreover have "selftest_bus base c exc (0 + 8 * i + 1) = base ! 1"
    using selftest_bus_base[of i 1 base c exc] assms by simp
  moreover have "selftest_bus base c exc (0 + 8 * i + 2) = base ! 2"
    using selftest_bus_base[of i 2 base c exc] assms by simp
  moreover have "selftest_bus base c exc (0 + 8 * i + 3) = base ! 3"
    using selftest_bus_base[of i 3 base c exc] assms by simp
  moreover have "selftest_bus base c exc (0 + 8 * i + 4) = base ! 4"
    using selftest_bus_base[of i 4 base c exc] assms by simp
  moreover have "selftest_bus base c exc (0 + 8 * i + 5) = base ! 5"
    using selftest_bus_base[of i 5 base c exc] assms by simp
  ultimately show ?thesis
    unfolding sample_at_def by (simp only:)
qed

lemma sample_at_exc:
  "sample_at (selftest_bus base c exc) (401 + 8 * i) =
     [decode_axis (exc ! 1) (exc ! 0), decode_axis (exc ! 3) (exc ! 2),
      decode_axis (exc ! 5) (exc ! 4)]"
proof -
  have "selftest_bus base c exc (401 + 8 * i) = exc ! 0"
    using selftest_bus_exc[of base c exc i 0] by simp
  moreover have "selftest_bus base c exc (401 + 8 * i + 1) = exc ! 1"
    using selftest_bus_exc[of base c exc i 1] by (simp add: add.assoc)
  moreover have "selftest_bus base c exc (401 + 8 * i + 2) = exc ! 2"
    using selftest_bus_exc[of base c exc i 2] by (simp add: add.assoc)
  moreover have "selftest_bus base c exc (401 + 8 * i + 3) = exc ! 3"
    using selftest_bus_exc[of base c exc i 3] by (simp add: add.assoc)
  moreover have "selftest_bus base c exc (401 + 8 * i + 4) = exc ! 4"
    using selftest_bus_exc[of base c exc i 4] by (simp add: add.assoc)
  moreover have "selftest_bus base c exc (401 + 8 * i + 5) = exc ! 5"
    using selftest_bus_exc[of base c exc i 5] by (simp add: add.assoc)
  ultimately show ?thesis
    unfolding sample_at_def by (simp only:)
qed

lemma samples_base:
  "samples_from (selftest_bus base c exc) 0 50 =
     replicate 50
       [decode_axis (base ! 1) (base ! 0), decode_axis (base ! 3) (base ! 2),
        decode_axis (base ! 5) (base ! 4)]"
proof -
  have "map (\<lambda>i. sample_at (selftest_bus base c exc) (0 + 8 * i)) [0 ..< 50] =
        map (\<lambda>i. [decode_axis (base ! 1) (base ! 0), decode_axis (base ! 3) (base ! 2),
                   decode_axis (base ! 5) (base ! 4)]) [0 ..< 50]"
  proof (rule map_cong [OF refl])
    fix i :: nat
    assume "i \<in> set [0 ..< 50]"
    then have "i < 50" by simp
    then show "sample_at (selftest_bus base c exc) (0 + 8 * i) =
      [decode_axis (base ! 1) (base ! 0), decode_axis (base ! 3) (base ! 2),
       decode_axis (base ! 5) (base ! 4)]"
      by (rule sample_at_base)
  qed
  then show ?thesis
    by (simp only: samples_from_def map_replicate_const length_upt) simp
qed

lemma samples_exc:
  "samples_from (selftest_bus base c exc) 401 50 =
     replicate 50
       [decode_axis (exc ! 1) (exc ! 0), decode_axis (exc ! 3) (exc ! 2),
        decode_axis (exc ! 5) (exc ! 4)]"
  by (simp add: samples_from_def sample_at_exc map_replicate_const)

lemma fold_add_replicate:
  "fold add_sample (replicate n [x, y, z]) [a, b, c] =
     [a + of_nat n * scast x, b + of_nat n * scast y, c + of_nat n * scast z]"
  by (induction n arbitrary: a b c) (simp_all add: add_sample_def algebra_simps)

text \<open>
  C1. A self-test on a bus whose baseline samples are (10, 20, 30) and whose
  excited samples are (40, 60, 80). The deltas of the three axes, each from
  the means of its own 50 and 50 samples, are 45, 60 and 75 milli-units. The
  driver prints 45, 45 and 60: the number after \<^verbatim>\<open>My results:\<close> is
  computed from the x sums and the number after \<^verbatim>\<open>Mz results:\<close> from the
  y sums; the z sums are never used.
\<close>

theorem self_test_prints_wrong_axes:
  "printed (trace (lis2mdl_self_test exact_arith lis2mdl_regs (boot axes_bus))) =
     [Fin 45, Fin 45, Fin 60]
   \<and> map (delta exact_arith
            (means exact_arith (fold add_sample (samples_from axes_bus 401 50) [0, 0, 0]))
            (means exact_arith (fold add_sample (samples_from axes_bus 0 50) [0, 0, 0])))
         [0, 1, 2] = [Fin 45, Fin 60, Fin 75]"
  unfolding axes_bus_def self_test_printed samples_base samples_exc fold_add_replicate
  by (simp add: decode_axis_def means_def delta_def exact_arith_def mRes_def x_sub_def)

section \<open>The interrupt pin\<close>


lemma set_pin_proj [simp]:
  "pos (set_pin p g s) = pos s" "rx (set_pin p g s) = rx s"
  "trace (set_pin p g s) = trace s" "spill (set_pin p g s) = spill s"
  by (simp_all add: set_pin_def)

lemma observable_set_pin [simp]: "observable (set_pin p g s) = observable s"
  by (simp add: observable_def)











end
